theory Spec2Isabelle
  imports Main "HOL-Library.Multiset"
begin

section \<open>Data model (package models)\<close>

text \<open>
  The struct \<open>Todo\<close>. The field \<open>Id\<close> of the source is written \<open>Id'\<close>, since
  \<open>Id\<close> is the identity relation of HOL.
\<close>

record Todo =
  Id' :: string
  Title :: string
  Description :: string
  Terminated :: bool

text \<open>The zero value \<open>Todo{}\<close> of the struct.\<close>

definition Todo_zero :: Todo where
  "Todo_zero = \<lparr>Id' = [], Title = [], Description = [], Terminated = False\<rparr>"

subsection \<open>The functions of package strconv that the source calls\<close>

text \<open>
  \<open>strconv.FormatBool\<close> and \<open>strconv.ParseBool\<close>. \<open>ParseBool\<close> returns the value and
  whether it succeeded; on failure the value is \<open>false\<close>.
\<close>

definition FormatBool :: "bool \<Rightarrow> string" where
  "FormatBool b = (if b then ''true'' else ''false'')"

definition ParseBool :: "string \<Rightarrow> bool \<times> bool" where
  "ParseBool str =
     (if str \<in> set [''1'', ''t'', ''T'', ''TRUE'', ''true'', ''True''] then (True, True)
      else if str \<in> set [''0'', ''f'', ''F'', ''FALSE'', ''false'', ''False''] then (False, True)
      else (False, False))"

text \<open>
  \<open>strconv.Itoa\<close>: the decimal digits of an integer, most significant first, with a
  leading minus sign for a negative one. Go reads each digit from the table
  \<open>"0123456789"\<close>.
\<close>

definition digit :: "nat \<Rightarrow> char" where
  "digit d = ''0123456789'' ! d"

fun formatBits :: "nat \<Rightarrow> string" where
  "formatBits n = (if n < 10 then [digit n] else formatBits (n div 10) @ [digit (n mod 10)])"

declare formatBits.simps [simp del]

definition Itoa :: "int \<Rightarrow> string" where
  "Itoa i = (if i < 0 then CHR ''-'' # formatBits (nat (- i)) else formatBits (nat i))"

text \<open>
  \<open>strconv.Atoi\<close> on a 64-bit platform, with the error it returns (\<open>None\<close> is
  \<open>nil\<close>). The errors of package strconv are \<open>ErrSyntax\<close> and \<open>ErrRange\<close>.
\<close>

datatype NumError = ErrSyntax | ErrRange

text \<open>The difference \<open>c - b\<close> of two bytes, which wraps around.\<close>

definition byteSub :: "char \<Rightarrow> char \<Rightarrow> nat" where
  "byteSub c b = (of_char c + 256 - of_char b) mod 256"

text \<open>
  The loop of the fast path of \<open>Atoi\<close>, taken for a string of 1 to 18 bytes: a byte
  that is not a digit ends it with a syntax error.
\<close>

fun Atoi_loop :: "string \<Rightarrow> int \<Rightarrow> int option" where
  "Atoi_loop [] n = Some n"
| "Atoi_loop (ch # rest) n =
     (let ch' = byteSub ch CHR ''0''
      in if ch' > 9 then None else Atoi_loop rest (n * 10 + int ch'))"

text \<open>
  \<open>strconv.ParseUint(s, 10, 64)\<close>. Its loop reads the bytes from the left: a byte
  that is not a digit is a syntax error with the value 0, and the first digit with
  which the number leaves the range of \<open>uint64\<close> is a range error with the value
  \<open>maxUint64\<close>, whatever follows it.
\<close>

fun ParseUint_loop :: "string \<Rightarrow> int \<Rightarrow> int \<times> NumError option" where
  "ParseUint_loop [] n = (n, None)"
| "ParseUint_loop (c # rest) n =
     (if \<not> ((of_char CHR ''0'' :: nat) \<le> of_char c \<and> (of_char c :: nat) \<le> of_char CHR ''9'')
      then (0, Some ErrSyntax)
      else (let d = int (byteSub c CHR ''0'')
            in if n \<ge> 1844674407370955162 then (18446744073709551615, Some ErrRange)
               else (let n' = n * 10;
                         n1 = (n' + d) mod 18446744073709551616
                     in if n1 < n' \<or> n1 > 18446744073709551615
                        then (18446744073709551615, Some ErrRange)
                        else ParseUint_loop rest n1)))"

definition ParseUint :: "string \<Rightarrow> int \<times> NumError option" where
  "ParseUint s = (if s = [] then (0, Some ErrSyntax) else ParseUint_loop s 0)"

text \<open>
  \<open>strconv.ParseInt(s, 10, 0)\<close>: the sign, then \<open>ParseUint\<close>; a syntax error gives 0,
  a number out of the range of \<open>int64\<close> the nearest bound and a range error.
\<close>

definition ParseInt :: "string \<Rightarrow> int \<times> NumError option" where
  "ParseInt s =
     (case s of
        [] \<Rightarrow> (0, Some ErrSyntax)
      | c # cs \<Rightarrow>
          (let neg = (c = CHR ''-'');
               s' = (if c = CHR ''+'' \<or> c = CHR ''-'' then cs else s);
               (un, err) = ParseUint s'
           in if err \<noteq> None \<and> err \<noteq> Some ErrRange then (0, err)
              else if \<not> neg \<and> un \<ge> 9223372036854775808
                   then (9223372036854775807, Some ErrRange)
              else if neg \<and> un > 9223372036854775808
                   then (- 9223372036854775808, Some ErrRange)
              else (if neg then - un else un, None)))"

text \<open>
  \<open>strconv.Atoi\<close>: the fast path for a string of 1 to 18 bytes, \<open>ParseInt\<close> for
  every other string.
\<close>

definition Atoi :: "string \<Rightarrow> int \<times> NumError option" where
  "Atoi s =
     (case s of
        [] \<Rightarrow> ParseInt s
      | c # cs \<Rightarrow>
          (if length s < 19
           then (let signed = (c = CHR ''-'' \<or> c = CHR ''+'');
                     s' = (if signed then cs else s)
                 in if signed \<and> length s' < 1 then (0, Some ErrSyntax)
                    else (case Atoi_loop s' 0 of
                            None \<Rightarrow> (0, Some ErrSyntax)
                          | Some n \<Rightarrow> (if c = CHR ''-'' then - n else n, None)))
           else ParseInt s))"

subsection \<open>Serialize, parseTodoData, ToBool\<close>

definition Serialize :: "Todo \<Rightarrow> string list" where
  "Serialize t = [Id' t, Title t, Description t, FormatBool (Terminated t)]"

definition ToBool :: "string \<Rightarrow> bool" where
  "ToBool info = fst (ParseBool info)"

text \<open>
  \<open>parseTodoData\<close> reads \<open>rec[0]\<close> to \<open>rec[3]\<close>; on a shorter record the index
  expression panics.
\<close>

datatype panic = IndexOutOfRange | NilMapAssignment

definition parseTodoData :: "string list \<Rightarrow> panic + Todo" where
  "parseTodoData rec =
     (if length rec < 4 then Inl IndexOutOfRange
      else Inr \<lparr>Id' = rec ! 0, Title = rec ! 1, Description = rec ! 2,
                Terminated = ToBool (rec ! 3)\<rparr>)"

section \<open>Go maps as heap objects\<close>

text \<open>
  A Go map value is a reference to a map object: assigning through one reference is
  seen through every other reference to the same object. The objects live in a heap
  indexed by addresses; \<open>None\<close> is the nil map. \<open>nextRef\<close> is the first address
  that no object uses yet.
\<close>

type_synonym gomap = "string \<rightharpoonup> Todo"
type_synonym ref = nat

record state =
  heap :: "ref \<Rightarrow> gomap"
  nextRef :: ref
  todoStore :: "ref option"
  filePersistence :: bool

text \<open>Reading through a reference; a nil map reads as the empty map.\<close>

definition deref :: "state \<Rightarrow> ref option \<Rightarrow> gomap" where
  "deref st m = (case m of None \<Rightarrow> Map.empty | Some a \<Rightarrow> heap st a)"

text \<open>
  \<open>make(map[string]Todo)\<close> followed by the assignments that fill the new object
  before any other reference to it exists: the object is placed in the heap with the
  content it has by then.
\<close>

definition make_map :: "gomap \<Rightarrow> state \<Rightarrow> ref \<times> state" where
  "make_map content st =
     (nextRef st, st\<lparr>heap := (heap st)(nextRef st := content), nextRef := Suc (nextRef st)\<rparr>)"

text \<open>\<open>m[k] = v\<close>: panics on the nil map, updates the object in place otherwise.\<close>

definition map_assign :: "ref option \<Rightarrow> string \<Rightarrow> Todo \<Rightarrow> state \<Rightarrow> panic + state" where
  "map_assign m k v st =
     (case m of
        None \<Rightarrow> Inl NilMapAssignment
      | Some a \<Rightarrow> Inr (st\<lparr>heap := (heap st)(a := (heap st a)(k \<mapsto> v))\<rparr>))"

text \<open>\<open>delete(m, k)\<close>: nothing happens on the nil map.\<close>

definition map_delete :: "ref option \<Rightarrow> string \<Rightarrow> state \<Rightarrow> state" where
  "map_delete m k st =
     (case m of
        None \<Rightarrow> st
      | Some a \<Rightarrow> st\<lparr>heap := (heap st)(a := (heap st a)(k := None))\<rparr>)"

text \<open>\<open>len(m)\<close>, the number of entries, as a Go \<open>int\<close>.\<close>

definition len :: "gomap \<Rightarrow> int" where
  "len m = int (card (dom m))"

text \<open>
  \<open>for k, v := range m\<close>: Go visits every entry once, in an order it does not
  specify. The order is the parameter \<open>order\<close>, a list of the keys; the loop sees
  the entries of \<open>m\<close> in that order.
\<close>

definition range_map :: "string list \<Rightarrow> gomap \<Rightarrow> (string \<times> Todo) list" where
  "range_map order m = List.map_filter (\<lambda>k. map_option (Pair k) (m k)) order"

text \<open>An order that Go may choose for \<open>m\<close>: every key of \<open>m\<close>, once.\<close>

definition iteration_order :: "string list \<Rightarrow> gomap \<Rightarrow> bool" where
  "iteration_order order m = (distinct order \<and> set order = dom m)"

text \<open>\<open>var todoStore = make(map[string]Todo)\<close>, \<open>var filePersistence = false\<close>.\<close>

definition init_state :: state where
  "init_state = \<lparr>heap = (\<lambda>_. Map.empty), nextRef = 1, todoStore = Some 0,
                  filePersistence = False\<rparr>"

text \<open>The content of the store: what the global \<open>todoStore\<close> refers to.\<close>

definition store :: "state \<Rightarrow> gomap" where
  "store st = deref st (todoStore st)"

section \<open>The store operations\<close>

definition EnableFilePersistence :: "state \<Rightarrow> state" where
  "EnableFilePersistence st = st\<lparr>filePersistence := True\<rparr>"

definition DisableFilePersistence :: "state \<Rightarrow> state" where
  "DisableFilePersistence st = st\<lparr>filePersistence := False\<rparr>"

definition clone :: "string list \<Rightarrow> ref option \<Rightarrow> state \<Rightarrow> ref \<times> state" where
  "clone order m st =
     make_map (foldl (\<lambda>m2 (k, v). m2(k \<mapsto> v)) Map.empty (range_map order (deref st m))) st"

definition TodoStore :: "string list \<Rightarrow> state \<Rightarrow> ref \<times> state" where
  "TodoStore order st = clone order (todoStore st) st"

definition AddTodo :: "Todo \<Rightarrow> state \<Rightarrow> panic + (Todo \<times> state)" where
  "AddTodo todo st =
     (let indexAsInt = len (store st);
          indexAsString = Itoa indexAsInt;
          todo' = todo\<lparr>Id' := indexAsString\<rparr>
      in case map_assign (todoStore st) indexAsString todo' st of
           Inl p \<Rightarrow> Inl p
         | Inr st' \<Rightarrow> Inr (todo', st'))"

definition UpdateTodo :: "string \<Rightarrow> Todo \<Rightarrow> state \<Rightarrow> panic + ((Todo \<times> bool) \<times> state)" where
  "UpdateTodo id' todo st =
     (case store st id' of
        None \<Rightarrow> Inr ((Todo_zero, False), st)
      | Some _ \<Rightarrow>
          (let todo' = (if id' \<noteq> Id' todo then todo\<lparr>Id' := id'\<rparr> else todo)
           in case map_assign (todoStore st) id' todo' st of
                Inl p \<Rightarrow> Inl p
              | Inr st' \<Rightarrow> Inr ((todo', True), st')))"

text \<open>
  The loop of \<open>RemoveTodo\<close> over the todos that \<open>range\<close> yields, with the temporary map
  and the running index as its state.
\<close>

fun RemoveTodo_loop :: "string \<Rightarrow> Todo list \<Rightarrow> gomap \<times> int \<Rightarrow> gomap \<times> int" where
  "RemoveTodo_loop id' [] (tempTodoStore, index) = (tempTodoStore, index)"
| "RemoveTodo_loop id' (currentTodo # rest) (tempTodoStore, index) =
     (if id' \<noteq> Id' currentTodo
      then (let indexAsString = Itoa index
            in RemoveTodo_loop id' rest
                 (tempTodoStore(indexAsString \<mapsto> currentTodo\<lparr>Id' := indexAsString\<rparr>),
                  index + 1))
      else RemoveTodo_loop id' rest (tempTodoStore, index))"

definition RemoveTodo :: "string list \<Rightarrow> string \<Rightarrow> state \<Rightarrow> bool \<times> state" where
  "RemoveTodo order id' st =
     (case store st id' of
        None \<Rightarrow> (False, st)
      | Some _ \<Rightarrow>
          (let (tempTodoStore, index) =
                 RemoveTodo_loop id' (map snd (range_map order (store st))) (Map.empty, 0);
               (r, st') = make_map tempTodoStore st
           in (True, st'\<lparr>todoStore := Some r\<rparr>)))"

definition DeleteAllTodos :: "state \<Rightarrow> state" where
  "DeleteAllTodos st = (let (r, st') = make_map Map.empty st in st'\<lparr>todoStore := Some r\<rparr>)"

subsection \<open>Loading from and saving to the CSV file\<close>

text \<open>
  The file \<open>data.csv\<close> as \<open>getDataFromFile\<close> sees it: \<open>os.Open\<close> fails, or it gives
  a file on which the successive calls of \<open>csvReader.Read()\<close> before \<open>io.EOF\<close> return
  a record or an error, and on which \<open>Close\<close> fails or not.
\<close>

datatype read_result = Record "string list" | ReadError

datatype csv_file = OpenError | File "read_result list" bool

text \<open>
  The read loop, with the map \<open>readTodos\<close> and \<open>rowIndex\<close> as its state. It returns
  a panic of \<open>parseTodoData\<close>, or \<open>None\<close> for the error return, or the map read.
\<close>

fun read_loop :: "read_result list \<Rightarrow> gomap \<times> int \<Rightarrow> panic + gomap option" where
  "read_loop [] (readTodos, rowIndex) = Inr (Some readTodos)"
| "read_loop (ReadError # rest) (readTodos, rowIndex) = Inr None"
| "read_loop (Record records # rest) (readTodos, rowIndex) =
     (let rowIndexAsString = Itoa rowIndex
      in case parseTodoData records of
           Inl p \<Rightarrow> Inl p
         | Inr todo \<Rightarrow> read_loop rest (readTodos(rowIndexAsString \<mapsto> todo), rowIndex + 1))"

text \<open>
  \<open>getDataFromFile\<close> returns the map and whether it returns an error; with an error
  the map is nil, and the object made for \<open>readTodos\<close> is lost with it.
\<close>

definition getDataFromFile :: "csv_file \<Rightarrow> state \<Rightarrow> panic + ((ref option \<times> bool) \<times> state)" where
  "getDataFromFile file st =
     (case file of
        OpenError \<Rightarrow> Inr ((None, True), st)
      | File reads closeError \<Rightarrow>
          (case read_loop reads (Map.empty, 0) of
             Inl p \<Rightarrow> Inl p
           | Inr None \<Rightarrow> Inr ((None, True), st)
           | Inr (Some readTodos) \<Rightarrow>
               (if closeError then Inr ((None, True), st)
                else (let (r, st') = make_map readTodos st in Inr ((Some r, False), st')))))"

definition Initialize :: "csv_file \<Rightarrow> state \<Rightarrow> panic + state" where
  "Initialize file st =
     (if filePersistence st
      then (case getDataFromFile file st of
              Inl p \<Rightarrow> Inl p
            | Inr ((m, _), st') \<Rightarrow> Inr (st'\<lparr>todoStore := m\<rparr>))
      else Inr st)"

text \<open>
  What the file system does to \<open>UpdateDataInFile\<close>: whether \<open>os.OpenFile\<close>, a
  \<open>writer.Write\<close> and \<open>file.Close\<close> fail. \<open>checkError\<close> ends the process with
  \<open>log.Fatal\<close>; a failing \<open>Close\<close> is returned as the error.
\<close>

record disk =
  openFails :: bool
  writeFails :: bool
  closeFails :: bool

datatype save_result = Fatal | SaveError | Saved "string list list option"

definition UpdateDataInFile :: "string list \<Rightarrow> disk \<Rightarrow> state \<Rightarrow> save_result" where
  "UpdateDataInFile order d st =
     (if filePersistence st = False then Saved None
      else if openFails d then Fatal
      else (let rows = map (\<lambda>(_, todo). Serialize todo) (range_map order (store st))
            in if rows \<noteq> [] \<and> writeFails d then Fatal
               else if closeFails d then SaveError
               else Saved (Some rows)))"

section \<open>The HTTP handlers (package controllers)\<close>

text \<open>
  \<open>sort.Slice\<close> with the comparison \<open>less\<close>. Go sorts a short slice by insertion and
  a longer one by a quicksort variant; neither is stable. The model is the
  insertion sort: among the todos that \<open>less\<close> does not tell apart Go may choose
  another order.
\<close>

fun insertLess :: "('a \<Rightarrow> 'a \<Rightarrow> bool) \<Rightarrow> 'a \<Rightarrow> 'a list \<Rightarrow> 'a list" where
  "insertLess less' x [] = [x]"
| "insertLess less' x (y # ys) = (if less' x y then x # y # ys else y # insertLess less' x ys)"

definition sort_Slice :: "('a \<Rightarrow> 'a \<Rightarrow> bool) \<Rightarrow> 'a list \<Rightarrow> 'a list" where
  "sort_Slice less' xs = foldl (\<lambda>prefix x. insertLess less' x prefix) [] xs"

definition sortTodosAfterIdAscending :: "Todo list \<Rightarrow> Todo list" where
  "sortTodosAfterIdAscending todos =
     sort_Slice (\<lambda>left right.
        (let leftValueAsInt = fst (Atoi (Id' left));
             rightValueAsInt = fst (Atoi (Id' right))
         in leftValueAsInt < rightValueAsInt)) todos"

text \<open>
  What a handler writes to its \<open>http.ResponseWriter\<close>: the header field
  \<open>Content-Type\<close>, the status of \<open>WriteHeader\<close>, and the values encoded to the body.
\<close>

datatype json =
    JsonDataResponse "Todo list"
  | JsonExtendedResponse Todo
  | JsonErrorResponse int string

record response =
  contentType :: "string option"
  status :: "nat option"
  body :: "json list"

definition new_response :: response where
  "new_response = \<lparr>contentType = None, status = None, body = []\<rparr>"

text \<open>The first \<open>WriteHeader\<close> fixes the status; a later call changes nothing.\<close>

definition WriteHeader :: "nat \<Rightarrow> response \<Rightarrow> response" where
  "WriteHeader code w = (if status w = None then w\<lparr>status := Some code\<rparr> else w)"

text \<open>
  \<open>json.NewEncoder(writer).Encode(v)\<close>: the write fails (\<open>fails\<close>, the
  connection is gone) or appends the value; a body written before any \<open>WriteHeader\<close>
  sends the status 200.
\<close>

definition Encode :: "bool \<Rightarrow> json \<Rightarrow> response \<Rightarrow> response option" where
  "Encode fails v w =
     (if fails then None
      else Some ((WriteHeader 200 w)\<lparr>body := body w @ [v]\<rparr>))"

text \<open>How a handler ends: it returns, it panics, or \<open>log.Fatal\<close> ends the process.\<close>

datatype ending = Returned | Panicked | Exited

text \<open>
  The environment of one request: the orders of the \<open>range\<close> loops it runs, whether
  encoding to the writer fails, and what the file system does.
\<close>

record env =
  cloneOrder :: "string list"
  rangeOrder :: "string list"
  encodeFails :: bool
  fileSystem :: disk






definition TodosGet :: "env \<Rightarrow> state \<Rightarrow> (response \<times> ending) \<times> state" where
  "TodosGet e st =
     (let (snapshot, st1) = TodoStore (cloneOrder e) st;
          todos = map snd (range_map (rangeOrder e) (heap st1 snapshot));
          sortedTodos = sortTodosAfterIdAscending todos;
          w1 = new_response\<lparr>contentType := Some ''application/json; charset=UTF-8''\<rparr>;
          w2 = WriteHeader 200 w1
      in case Encode (encodeFails e) (JsonDataResponse sortedTodos) w2 of
           None \<Rightarrow> ((w2, Panicked), st1)
         | Some w3 \<Rightarrow> ((w3, Returned), st1))"


text \<open>Adding the todos of a list one after the other, collecting what \<open>AddTodo\<close> returns.\<close>

fun AddTodos :: "Todo list \<Rightarrow> state \<Rightarrow> panic + (Todo list \<times> state)" where
  "AddTodos [] st = Inr ([], st)"
| "AddTodos (todo # rest) st =
     (case AddTodo todo st of
        Inl p \<Rightarrow> Inl p
      | Inr (added, st1) \<Rightarrow>
          (case AddTodos rest st1 of
             Inl p \<Rightarrow> Inl p
           | Inr (others, st2) \<Rightarrow> Inr (added # others, st2)))"

section \<open>Decimal digits\<close>

text \<open>The number that a string of decimal digits denotes, read from the left.\<close>

definition decimalValue :: "int \<Rightarrow> string \<Rightarrow> int" where
  "decimalValue n ds = foldl (\<lambda>n c. n * 10 + int (byteSub c CHR ''0'')) n ds"

text \<open>The bytes \<open>0\<close> to \<open>9\<close>.\<close>

definition isDigit :: "char \<Rightarrow> bool" where
  "isDigit c = (byteSub c CHR ''0'' \<le> 9 \<and> (48::nat) \<le> of_char c \<and> (of_char c :: nat) \<le> 57)"

section \<open>Properties of a store\<close>

text \<open>
  Every stored todo carries its key in its field \<open>Id\<close>; the keys are the decimal
  strings of the numbers below the number of entries.
\<close>

definition keyed_by_Id :: "gomap \<Rightarrow> bool" where
  "keyed_by_Id m = (\<forall>k t. m k = Some t \<longrightarrow> Id' t = k)"

definition contiguous_keys :: "gomap \<Rightarrow> bool" where
  "contiguous_keys m = (dom m = (\<lambda>i. Itoa (int i)) ` {..<card (dom m)})"

text \<open>
  The global \<open>todoStore\<close> refers to an object that exists: a later \<open>make\<close> returns
  another one.
\<close>

definition wf_state :: "state \<Rightarrow> bool" where
  "wf_state st = (case todoStore st of None \<Rightarrow> True | Some r \<Rightarrow> r < nextRef st)"

text \<open>
  The states that \<open>AddTodo\<close>, \<open>UpdateTodo\<close>, \<open>RemoveTodo\<close> and \<open>DeleteAllTodos\<close> reach
  from the initial, empty store; \<open>RemoveTodo\<close> with any order that \<open>range\<close> may take.
\<close>

inductive reachable :: "state \<Rightarrow> bool" where
  initial: "reachable init_state"
| add: "reachable st \<Longrightarrow> AddTodo todo st = Inr (added, st') \<Longrightarrow> reachable st'"
| update: "reachable st \<Longrightarrow> UpdateTodo id' todo st = Inr (result, st') \<Longrightarrow> reachable st'"
| remove: "reachable st \<Longrightarrow> iteration_order order (store st) \<Longrightarrow>
           RemoveTodo order id' st = (ok, st') \<Longrightarrow> reachable st'"
| deleteAll: "reachable st \<Longrightarrow> reachable (DeleteAllTodos st)"

section \<open>Example stores\<close>

text \<open>
  Two todos, the stores holding the first and both of them, an environment of a
  request, and a file \<open>data.csv\<close> whose only row has the id 7, with the state that
  \<open>Initialize\<close> loads from it.
\<close>

definition todoA :: Todo where
  "todoA = \<lparr>Id' = ''x'', Title = ''write'', Description = ''the spec'', Terminated = False\<rparr>"

definition todoB :: Todo where
  "todoB = \<lparr>Id' = ''17'', Title = ''check'', Description = ''the proofs'', Terminated = True\<rparr>"

definition one_todo_state :: state where
  "one_todo_state =
     \<lparr>heap = (\<lambda>_. Map.empty)(0 := [''0'' \<mapsto> todoA\<lparr>Id' := ''0''\<rparr>]),
      nextRef = 1, todoStore = Some 0, filePersistence = False\<rparr>"

definition two_todos_state :: state where
  "two_todos_state =
     \<lparr>heap = (\<lambda>_. Map.empty)
         (0 := [''0'' \<mapsto> todoA\<lparr>Id' := ''0''\<rparr>, ''1'' \<mapsto> todoB\<lparr>Id' := ''1''\<rparr>]),
      nextRef = 1, todoStore = Some 0, filePersistence = False\<rparr>"

definition example_env :: env where
  "example_env =
     \<lparr>cloneOrder = [''1'', ''0''], rangeOrder = [''0'', ''1''], encodeFails = False,
      fileSystem = \<lparr>openFails = False, writeFails = False, closeFails = False\<rparr>\<rparr>"

definition foreign_file :: csv_file where
  "foreign_file = File [Record [''7'', ''buy milk'', ''today'', ''false'']] False"

definition loaded_state :: state where
  "loaded_state =
     \<lparr>heap = (\<lambda>_. Map.empty)
         (1 := [''0'' \<mapsto> \<lparr>Id' = ''7'', Title = ''buy milk'', Description = ''today'',
                             Terminated = False\<rparr>]),
      nextRef = 2, todoStore = Some 1, filePersistence = True\<rparr>"

text \<open>
  The state after \<open>Initialize\<close> with file persistence on and no file \<open>data.csv\<close>:
  \<open>todoStore\<close> is the nil map.
\<close>

definition nil_state :: state where
  "nil_state = \<lparr>heap = (\<lambda>_. Map.empty), nextRef = 1, todoStore = None,
                 filePersistence = True\<rparr>"

text \<open>
  The rows that \<open>UpdateDataInFile\<close> writes for the store of the two todos when its
  \<open>range\<close> loop visits the key 1 first, and the state that \<open>Initialize\<close> loads from
  them at the next start.
\<close>

definition restart_rows :: "string list list" where
  "restart_rows = [Serialize (todoB\<lparr>Id' := ''1''\<rparr>), Serialize (todoA\<lparr>Id' := ''0''\<rparr>)]"

definition restarted_state :: state where
  "restarted_state =
     \<lparr>heap = (\<lambda>_. Map.empty)
         (1 := [''0'' \<mapsto> todoB\<lparr>Id' := ''1''\<rparr>, ''1'' \<mapsto> todoA\<lparr>Id' := ''0''\<rparr>]),
      nextRef = 2, todoStore = Some 1, filePersistence = True\<rparr>"




section \<open>The CSV fields of a todo\<close>

text \<open>
  Claim C3: for every todo \<open>t\<close>, parsing the record that \<open>t.Serialize()\<close> produces
  gives \<open>t\<close> back: \<open>parseTodoData\<close> does not panic on it and every field, the
  boolean read through \<open>ToBool\<close> included, is the one of \<open>t\<close>.
\<close>

theorem serialize_parse_roundtrip: "parseTodoData (Serialize t) = Inr t"
  by (cases t)
    (simp add: parseTodoData_def Serialize_def ToBool_def ParseBool_def FormatBool_def)

section \<open>Decimal strings\<close>

lemma digit_inj: "a < 10 \<Longrightarrow> b < 10 \<Longrightarrow> digit a = digit b \<Longrightarrow> a = b"
proof -
  assume a: "a < 10" and b: "b < 10" and e: "digit a = digit b"
  have d: "distinct ''0123456789''" by simp
  have l: "length ''0123456789'' = 10" by simp
  from e have "''0123456789'' ! a = ''0123456789'' ! b" by (simp only: digit_def)
  with d a b l show "a = b" by (simp only: nth_eq_iff_index_eq)
qed

lemma formatBits_nonempty: "formatBits n \<noteq> []"
  by (subst formatBits.simps) simp

lemma formatBits_small: "n < 10 \<Longrightarrow> formatBits n = [digit n]"
  by (subst formatBits.simps) simp

lemma formatBits_big: "\<not> n < 10 \<Longrightarrow> formatBits n = formatBits (n div 10) @ [digit (n mod 10)]"
  by (subst formatBits.simps) simp

lemma formatBits_inj: "formatBits n = formatBits m \<Longrightarrow> n = m"
proof (induction n arbitrary: m rule: formatBits.induct)
  case (1 n)
  show ?case
  proof (cases "n < 10")
    case n: True
    show ?thesis
    proof (cases "m < 10")
      case True
      with n "1.prems" show ?thesis by (simp add: formatBits_small digit_inj)
    next
      case False
      with n "1.prems" formatBits_nonempty[of "m div 10"] show ?thesis
        by (simp add: formatBits_small formatBits_big)
    qed
  next
    case n: False
    show ?thesis
    proof (cases "m < 10")
      case True
      with n "1.prems" formatBits_nonempty[of "n div 10"] show ?thesis
        by (simp add: formatBits_small formatBits_big)
    next
      case False
      with n "1.prems" have e: "formatBits (n div 10) = formatBits (m div 10)"
        and d: "digit (n mod 10) = digit (m mod 10)"
        by (simp_all add: formatBits_big)
      from "1.IH"[OF n e] have "n div 10 = m div 10" .
      moreover from d have "n mod 10 = m mod 10" by (simp add: digit_inj)
      ultimately show ?thesis by (metis div_mult_mod_eq)
    qed
  qed
qed

lemma Itoa_nat_inj: "Itoa (int n) = Itoa (int m) \<Longrightarrow> n = m"
  by (simp add: Itoa_def formatBits_inj)

lemma inj_Itoa_nat: "inj (\<lambda>n. Itoa (int n))"
  by (rule injI) (rule Itoa_nat_inj)

text \<open>
  \<open>Atoi\<close> reads back what \<open>Itoa\<close> writes: for the ids that the store assigns, the
  number that the sort compares is the index itself.
\<close>

lemma digit_cases: "d < 10 \<Longrightarrow> d = 0 \<or> d = 1 \<or> d = 2 \<or> d = 3 \<or> d = 4 \<or> d = 5 \<or> d = 6 \<or> d = 7 \<or> d = 8 \<or> d = (9::nat)"
  by arith

lemma digit_props:
  assumes "d < 10"
  shows "byteSub (digit d) CHR ''0'' = d" and "isDigit (digit d)"
    and "digit d \<noteq> CHR ''-''" and "digit d \<noteq> CHR ''+''"
  using digit_cases[OF assms]
  by (auto simp: digit_def byteSub_def isDigit_def)

lemma decimalValue_snoc:
  "decimalValue n (ds @ [c]) = decimalValue n ds * 10 + int (byteSub c CHR ''0'')"
  by (simp add: decimalValue_def)

lemma decimalValue_Cons:
  "decimalValue n (c # ds) = decimalValue (n * 10 + int (byteSub c CHR ''0'')) ds"
  by (simp add: decimalValue_def)

lemma decimalValue_ge: "0 \<le> n \<Longrightarrow> n \<le> decimalValue n ds"
proof (induction ds arbitrary: n)
  case Nil
  then show ?case by (simp add: decimalValue_def)
next
  case (Cons c ds)
  let ?m = "n * 10 + int (byteSub c CHR ''0'')"
  from Cons.prems have m: "0 \<le> ?m" "n \<le> ?m" by simp_all
  from Cons.IH[OF m(1)] m(2) show ?case by (simp add: decimalValue_Cons)
qed

lemma formatBits_digits:
  "decimalValue 0 (formatBits n) = int n \<and> list_all isDigit (formatBits n) \<and>
   hd (formatBits n) \<noteq> CHR ''-'' \<and> hd (formatBits n) \<noteq> CHR ''+''"
proof (induction n rule: formatBits.induct)
  case (1 n)
  show ?case
  proof (cases "n < 10")
    case True
    then have "formatBits n = [digit n]" by (rule formatBits_small)
    with digit_props[OF True] show ?thesis by (simp add: decimalValue_def)
  next
    case False
    have m: "n mod 10 < 10" by simp
    from False have f: "formatBits n = formatBits (n div 10) @ [digit (n mod 10)]"
      by (rule formatBits_big)
    have e: "int (n div 10) * 10 + int (n mod 10) = int n" by presburger
    from "1.IH"[OF False] digit_props[OF m] formatBits_nonempty[of "n div 10"] e
    show ?thesis unfolding f by (simp add: decimalValue_snoc)
  qed
qed

lemma Atoi_loop_digits:
  "list_all isDigit ds \<Longrightarrow> Atoi_loop ds n = Some (decimalValue n ds)"
proof (induction ds arbitrary: n)
  case Nil
  then show ?case by (simp add: decimalValue_def)
next
  case (Cons c ds)
  then have "isDigit c" and r: "list_all isDigit ds" by simp_all
  then have "byteSub c CHR ''0'' \<le> 9" by (simp add: isDigit_def)
  with Cons.IH[OF r] show ?case by (simp add: decimalValue_Cons Let_def)
qed

lemma ParseUint_loop_digits:
  assumes "list_all isDigit ds" and "0 \<le> n" and "decimalValue n ds < 9223372036854775808"
  shows "ParseUint_loop ds n = (decimalValue n ds, None)"
  using assms
proof (induction ds arbitrary: n)
  case Nil
  then show ?case by (simp add: decimalValue_def)
next
  case (Cons c ds)
  let ?d = "int (byteSub c CHR ''0'')"
  let ?m = "n * 10 + ?d"
  from Cons.prems(1) have "isDigit c" and r: "list_all isDigit ds" by simp_all
  then have c: "(48::nat) \<le> of_char c" "(of_char c :: nat) \<le> 57" "?d \<le> 9"
    by (simp_all add: isDigit_def)
  from Cons.prems(2) have m0: "0 \<le> ?m" by simp
  from decimalValue_ge[OF m0, of ds] Cons.prems(3)
  have m: "?m < 9223372036854775808" by (simp add: decimalValue_Cons)
  with Cons.prems(2) have n: "\<not> n \<ge> 1844674407370955162" by simp
  from m m0 have md: "?m mod 18446744073709551616 = ?m" by simp
  have ge: "\<not> ?m < n * 10" by simp
  from m have le: "\<not> ?m > 18446744073709551615" by simp
  from Cons.prems(3) have "decimalValue ?m ds < 9223372036854775808" by (simp add: decimalValue_Cons)
  from Cons.IH[OF r m0 this] have "ParseUint_loop ds ?m = (decimalValue ?m ds, None)" .
  with c n md ge le show ?case by (simp add: decimalValue_Cons Let_def)
qed

lemma Atoi_Itoa:
  assumes "n < 9223372036854775808"
  shows "Atoi (Itoa (int n)) = (int n, None)"
proof -
  obtain c cs where f: "formatBits n = c # cs"
    using formatBits_nonempty[of n] by (cases "formatBits n") auto
  from formatBits_digits[of n] f have
    v: "decimalValue 0 (c # cs) = int n" and d: "list_all isDigit (c # cs)"
    and c: "c \<noteq> CHR ''-''" "c \<noteq> CHR ''+''"
    by simp_all
  from Atoi_loop_digits[OF d, of 0] v have fast: "Atoi_loop (c # cs) 0 = Some (int n)" by simp
  from assms v have "decimalValue 0 (c # cs) < 9223372036854775808" by simp
  from ParseUint_loop_digits[OF d _ this] v have "ParseUint_loop (c # cs) 0 = (int n, None)" by simp
  then have "ParseUint (c # cs) = (int n, None)" by (simp add: ParseUint_def)
  with c assms have slow: "ParseInt (c # cs) = (int n, None)" by (simp add: ParseInt_def)
  have i: "Itoa (int n) = c # cs" by (simp add: Itoa_def f)
  show ?thesis unfolding i Atoi_def using fast slow c by (simp del: Atoi_loop.simps)
qed

section \<open>The loops over a store\<close>

lemma range_map_order:
  "set order \<subseteq> dom m \<Longrightarrow> range_map order m = map (\<lambda>k. (k, the (m k))) order"
  by (induction order) (auto simp: range_map_def List.map_filter_simps)

lemma range_map_values:
  "set order \<subseteq> dom m \<Longrightarrow> map snd (range_map order m) = map (\<lambda>k. the (m k)) order"
  by (simp add: range_map_order comp_def)

lemma loop_general:
  "RemoveTodo_loop id' ts (tmp, int n) = (tmp', idx') \<Longrightarrow>
     idx' = int (n + length (filter (\<lambda>t. Id' t \<noteq> id') ts)) \<and>
     dom tmp' = dom tmp \<union> (\<lambda>i. Itoa (int i)) ` {n ..< n + length (filter (\<lambda>t. Id' t \<noteq> id') ts)} \<and>
     (\<forall>k t. tmp' k = Some t \<longrightarrow> tmp k = Some t \<or> Id' t = k)"
proof (induction ts arbitrary: tmp n)
  case Nil
  then show ?case by simp
next
  case (Cons c ts)
  show ?case
  proof (cases "id' = Id' c")
    case True
    with Cons.prems have "RemoveTodo_loop id' ts (tmp, int n) = (tmp', idx')" by simp
    from Cons.IH[OF this] True show ?thesis by simp
  next
    case False
    let ?tmp1 = "tmp(Itoa (int n) \<mapsto> c\<lparr>Id' := Itoa (int n)\<rparr>)"
    from False Cons.prems have "RemoveTodo_loop id' ts (?tmp1, int (Suc n)) = (tmp', idx')"
      by (simp add: Let_def add.commute)
    from Cons.IH[OF this] have
      i: "idx' = int (Suc n + length (filter (\<lambda>t. Id' t \<noteq> id') ts))" and
      d: "dom tmp' = dom ?tmp1 \<union> (\<lambda>i. Itoa (int i)) ` {Suc n ..< Suc n + length (filter (\<lambda>t. Id' t \<noteq> id') ts)}" and
      e: "\<forall>k t. tmp' k = Some t \<longrightarrow> ?tmp1 k = Some t \<or> Id' t = k"
      by blast+
    have s: "{n ..< Suc n + length (filter (\<lambda>t. Id' t \<noteq> id') ts)} = insert n {Suc n ..< Suc n + length (filter (\<lambda>t. Id' t \<noteq> id') ts)}"
      by auto
    from False i have "idx' = int (n + length (filter (\<lambda>t. Id' t \<noteq> id') (c # ts)))" by simp
    moreover from False d s have "dom tmp' = dom tmp \<union> (\<lambda>i. Itoa (int i)) ` {n ..< n + length (filter (\<lambda>t. Id' t \<noteq> id') (c # ts))}"
      by simp
    moreover have "\<forall>k t. tmp' k = Some t \<longrightarrow> tmp k = Some t \<or> Id' t = k"
    proof (intro allI impI)
      fix k t
      assume "tmp' k = Some t"
      with e have c: "?tmp1 k = Some t \<or> Id' t = k" by blast
      show "tmp k = Some t \<or> Id' t = k"
      proof (cases "k = Itoa (int n)")
        case True
        with c show ?thesis by auto
      next
        case False
        with c show ?thesis by simp
      qed
    qed
    ultimately show ?thesis by blast
  qed
qed

lemma card_Itoa_image: "card ((\<lambda>i. Itoa (int i)) ` A) = card A"
  by (rule card_image) (rule inj_on_subset[OF inj_Itoa_nat], simp)

lemma filter_other_keys:
  assumes "distinct order" and "id' \<in> set order"
  shows "length (filter (\<lambda>k. k \<noteq> id') order) = length order - 1"
  using assms
proof (induction order)
  case Nil
  then show ?case by simp
next
  case (Cons a order)
  show ?case
  proof (cases "a = id'")
    case True
    with Cons.prems have "id' \<notin> set order" by simp
    then have "filter (\<lambda>k. k \<noteq> id') order = order" by (auto simp: filter_id_conv)
    with True show ?thesis by simp
  next
    case False
    with Cons have "length (filter (\<lambda>k. k \<noteq> id') order) = length order - 1" and "id' \<in> set order" by simp_all
    moreover then have "length order > 0" by (cases order) simp_all
    ultimately show ?thesis using False by simp
  qed
qed

lemma kept_count:
  assumes o: "iteration_order order m"
    and k: "\<forall>k t. m k = Some t \<longrightarrow> Id' t = k"
    and p: "m id' \<noteq> None"
  shows "length (filter (\<lambda>t. Id' t \<noteq> id') (map snd (range_map order m))) = card (dom m) - 1"
proof -
  from o have d: "distinct order" and s: "set order = dom m" by (simp_all add: iteration_order_def)
  from s have v: "map snd (range_map order m) = map (\<lambda>k. the (m k)) order"
    by (simp add: range_map_values)
  have "filter (\<lambda>t. Id' t \<noteq> id') (map (\<lambda>k. the (m k)) order) = map (\<lambda>k. the (m k)) (filter (\<lambda>k. k \<noteq> id') order)"
    unfolding filter_map comp_def
  proof (rule arg_cong[where f = "map (\<lambda>k. the (m k))"], rule filter_cong[OF refl])
    fix x assume "x \<in> set order"
    with s obtain t where "m x = Some t" by auto
    with k show "(Id' (the (m x)) \<noteq> id') = (x \<noteq> id')" by auto
  qed
  then have "length (filter (\<lambda>t. Id' t \<noteq> id') (map snd (range_map order m))) = length (filter (\<lambda>k. k \<noteq> id') order)"
    using v by simp
  also from p s have "id' \<in> set order" by auto
  with d have "length (filter (\<lambda>k. k \<noteq> id') order) = length order - 1" by (rule filter_other_keys)
  also from d s have "length order = card (dom m)" by (metis distinct_card)
  finally show ?thesis .
qed

section \<open>The store operations on the heap\<close>

lemma store_after_make_map:
  "make_map c st = (r, st') \<Longrightarrow> store (st'\<lparr>todoStore := Some r\<rparr>) = c"
  by (auto simp: make_map_def store_def deref_def)

lemma contiguous_keys_image:
  "dom m = (\<lambda>i. Itoa (int i)) ` {..<n} \<Longrightarrow> card (dom m) = n \<and> contiguous_keys m"
  by (simp add: contiguous_keys_def card_Itoa_image)

lemma contiguous_keys_finite: "contiguous_keys m \<Longrightarrow> finite (dom m)"
  by (metis contiguous_keys_def finite_imageI finite_lessThan)

lemma RemoveTodo_present:
  assumes p: "store st id' \<noteq> None"
  shows "\<exists>st'. RemoveTodo order id' st = (True, st') \<and>
           store st' = fst (RemoveTodo_loop id' (map snd (range_map order (store st))) (Map.empty, 0)) \<and>
           todoStore st' = Some (nextRef st) \<and> nextRef st' = Suc (nextRef st)"
  using p by (auto simp: RemoveTodo_def make_map_def store_def deref_def split: prod.splits)

lemma loop_from_empty:
  assumes "RemoveTodo_loop id' ts (Map.empty, 0) = (tmp', idx')"
  shows "card (dom tmp') = length (filter (\<lambda>t. Id' t \<noteq> id') ts) \<and> contiguous_keys tmp' \<and> keyed_by_Id tmp'"
proof -
  from assms have "RemoveTodo_loop id' ts (Map.empty, int 0) = (tmp', idx')" by simp
  from loop_general[OF this]
  have d: "dom tmp' = (\<lambda>i. Itoa (int i)) ` {..<length (filter (\<lambda>t. Id' t \<noteq> id') ts)}"
    and k: "\<forall>k t. tmp' k = Some t \<longrightarrow> Id' t = k"
    by (simp_all add: lessThan_atLeast0)
  from contiguous_keys_image[OF d] k show ?thesis by (simp add: keyed_by_Id_def)
qed

lemma RemoveTodo_general:
  assumes o: "iteration_order order (store st)"
    and k: "keyed_by_Id (store st)"
    and p: "store st id' \<noteq> None"
  shows "fst (RemoveTodo order id' st) = True \<and>
         card (dom (store (snd (RemoveTodo order id' st)))) + 1 = card (dom (store st)) \<and>
         contiguous_keys (store (snd (RemoveTodo order id' st))) \<and>
         keyed_by_Id (store (snd (RemoveTodo order id' st)))"
proof -
  obtain tmp idx where l: "RemoveTodo_loop id' (map snd (range_map order (store st))) (Map.empty, 0) = (tmp, idx)"
    by (cases "RemoveTodo_loop id' (map snd (range_map order (store st))) (Map.empty, 0)")
  from RemoveTodo_present[OF p, of order] l obtain st' where
    r: "RemoveTodo order id' st = (True, st')" and s: "store st' = tmp" by auto
  from loop_from_empty[OF l] have
    c: "card (dom tmp) = length (filter (\<lambda>t. Id' t \<noteq> id') (map snd (range_map order (store st))))"
    and ck: "contiguous_keys tmp" "keyed_by_Id tmp" by simp_all
  from k have "\<forall>k t. store st k = Some t \<longrightarrow> Id' t = k" by (simp add: keyed_by_Id_def)
  from kept_count[OF o this p] c have c': "card (dom tmp) = card (dom (store st)) - 1" by simp
  from o have "finite (dom (store st))" by (metis iteration_order_def List.finite_set)
  moreover from p have "id' \<in> dom (store st)" by auto
  ultimately have "card (dom (store st)) > 0" by (auto simp: card_gt_0_iff)
  with c' have "card (dom tmp) + 1 = card (dom (store st))" by simp
  with r s ck show ?thesis by simp
qed

lemma RemoveTodo_absent: "store st id' = None \<Longrightarrow> RemoveTodo order id' st = (False, st)"
  by (simp add: RemoveTodo_def)

lemma UpdateTodo_absent: "store st id' = None \<Longrightarrow> UpdateTodo id' todo st = Inr ((Todo_zero, False), st)"
  by (simp add: UpdateTodo_def)

lemma UpdateTodo_present:
  assumes "store st id' \<noteq> None"
  shows "\<exists>st'. UpdateTodo id' todo st = Inr ((todo\<lparr>Id' := id'\<rparr>, True), st') \<and>
           store st' = (store st)(id' \<mapsto> todo\<lparr>Id' := id'\<rparr>) \<and>
           todoStore st' = todoStore st \<and> nextRef st' = nextRef st \<and> filePersistence st' = filePersistence st"
proof -
  from assms obtain r where r: "todoStore st = Some r"
    by (cases "todoStore st") (auto simp: store_def deref_def)
  have e: "(if id' \<noteq> Id' todo then todo\<lparr>Id' := id'\<rparr> else todo) = todo\<lparr>Id' := id'\<rparr>"
    by (cases todo) auto
  from assms r show ?thesis
    unfolding UpdateTodo_def Let_def e
    by (auto simp: map_assign_def store_def deref_def)
qed

lemma AddTodo_step:
  assumes r: "todoStore st = Some r"
  shows "\<exists>st'. AddTodo todo st = Inr (todo\<lparr>Id' := Itoa (int (card (dom (store st))))\<rparr>, st') \<and>
           store st' = (store st)(Itoa (int (card (dom (store st)))) \<mapsto> todo\<lparr>Id' := Itoa (int (card (dom (store st))))\<rparr>) \<and>
           todoStore st' = Some r"
  using r by (simp add: AddTodo_def Let_def len_def map_assign_def store_def deref_def)

lemma contiguous_keys_add:
  assumes c: "contiguous_keys m"
  shows "Itoa (int (card (dom m))) \<notin> dom m"
    and "card (dom (m(Itoa (int (card (dom m))) \<mapsto> t))) = Suc (card (dom m))"
    and "contiguous_keys (m(Itoa (int (card (dom m))) \<mapsto> t))"
proof -
  let ?n = "card (dom m)"
  from c have d: "dom m = (\<lambda>i. Itoa (int i)) ` {..<?n}" by (simp add: contiguous_keys_def)
  show f: "Itoa (int ?n) \<notin> dom m"
  proof
    assume "Itoa (int ?n) \<in> dom m"
    with d obtain i where "i < ?n" "Itoa (int i) = Itoa (int ?n)" by (metis (no_types, lifting) imageE lessThan_iff)
    then show False using Itoa_nat_inj by blast
  qed
  from d have "dom (m(Itoa (int ?n) \<mapsto> t)) = (\<lambda>i. Itoa (int i)) ` {..<Suc ?n}"
    by (simp add: lessThan_Suc)
  from contiguous_keys_image[OF this]
  show "card (dom (m(Itoa (int ?n) \<mapsto> t))) = Suc ?n" "contiguous_keys (m(Itoa (int ?n) \<mapsto> t))"
    by simp_all
qed

section \<open>Facts about the example stores\<close>

lemma Itoa_0: "Itoa 0 = ''0''"
  by (simp add: Itoa_def formatBits.simps digit_def)

lemma Itoa_1: "Itoa 1 = ''1''"
  by (simp add: Itoa_def formatBits.simps digit_def)

lemma store_two: "store two_todos_state = [''0'' \<mapsto> todoA\<lparr>Id' := ''0''\<rparr>, ''1'' \<mapsto> todoB\<lparr>Id' := ''1''\<rparr>]"
  by (simp add: two_todos_state_def store_def deref_def)

lemma order_two: "iteration_order [''1'', ''0''] (store two_todos_state)"
  by (auto simp: store_two iteration_order_def)

lemma keyed_two: "keyed_by_Id (store two_todos_state)"
  by (auto simp: store_two keyed_by_Id_def split: if_splits)

lemma wf_two: "wf_state two_todos_state"
  by (simp add: wf_state_def two_todos_state_def)

section \<open>Removing, updating, failing\<close>

text \<open>
  On a store whose todos all carry their key in the field \<open>Id\<close>, for an id present
  in it and for every order of the \<open>range\<close> loop, \<open>RemoveTodo\<close> succeeds, the new
  store has exactly one entry less, its keys are the decimal strings of 0 to n - 1,
  and every stored todo has its key in its field \<open>Id\<close>.
\<close>

theorem RemoveTodo_renumbers:
  assumes "iteration_order order (store st)"
    and "keyed_by_Id (store st)"
    and "store st id' \<noteq> None"
  shows "fst (RemoveTodo order id' st) = True \<and>
         card (dom (store (snd (RemoveTodo order id' st)))) + 1 = card (dom (store st)) \<and>
         contiguous_keys (store (snd (RemoveTodo order id' st))) \<and>
         keyed_by_Id (store (snd (RemoveTodo order id' st)))"
  using assms by (rule RemoveTodo_general)

text \<open>
  Claim C5: \<open>UpdateTodo\<close> reports failure exactly when the id is absent from the
  store. When the id is present the record stored at the id becomes the given todo
  with the field \<open>Id\<close> set to the id, and this record is returned.
\<close>

theorem UpdateTodo_replaces:
  "\<exists>updated ok st'. UpdateTodo id' todo st = Inr ((updated, ok), st') \<and>
     (ok = False) = (store st id' = None) \<and>
     (store st id' \<noteq> None \<longrightarrow>
        updated = todo\<lparr>Id' := id'\<rparr> \<and> store st' = (store st)(id' \<mapsto> todo\<lparr>Id' := id'\<rparr>))"
proof (cases "store st id'")
  case None
  from UpdateTodo_absent[OF this, of todo] None show ?thesis
    by (intro exI[of _ Todo_zero] exI[of _ False] exI[of _ st]) simp
next
  case (Some x)
  then have "store st id' \<noteq> None" by simp
  from UpdateTodo_present[OF this, of todo] obtain st' where
    "UpdateTodo id' todo st = Inr ((todo\<lparr>Id' := id'\<rparr>, True), st')"
    and "store st' = (store st)(id' \<mapsto> todo\<lparr>Id' := id'\<rparr>)" by blast
  with Some show ?thesis
    by (intro exI[of _ "todo\<lparr>Id' := id'\<rparr>"] exI[of _ True] exI[of _ st']) simp
qed

text \<open>
  Claim C10: for an id absent from the store, \<open>UpdateTodo\<close> and \<open>RemoveTodo\<close> both
  report failure and return the state they were given: the store, the heap and the
  persistence flag are unchanged.
\<close>

theorem absent_id_fails_unchanged:
  assumes "store st id' = None"
  shows "UpdateTodo id' todo st = Inr ((Todo_zero, False), st) \<and>
         RemoveTodo order id' st = (False, st)"
  using assms by (simp add: UpdateTodo_absent RemoveTodo_absent)

theorem RemoveTodo_renumbers_witness:
  "iteration_order [''1'', ''0''] (store two_todos_state) \<and> keyed_by_Id (store two_todos_state) \<and>
   store two_todos_state ''0'' \<noteq> None \<and>
   fst (RemoveTodo [''1'', ''0''] ''0'' two_todos_state) = True \<and>
   card (dom (store (snd (RemoveTodo [''1'', ''0''] ''0'' two_todos_state)))) + 1 = card (dom (store two_todos_state)) \<and>
   contiguous_keys (store (snd (RemoveTodo [''1'', ''0''] ''0'' two_todos_state))) \<and>
   keyed_by_Id (store (snd (RemoveTodo [''1'', ''0''] ''0'' two_todos_state)))"
proof -
  have p: "store two_todos_state ''0'' \<noteq> None" by (simp add: store_two)
  from RemoveTodo_renumbers[OF order_two keyed_two p] order_two keyed_two p show ?thesis by simp
qed

text \<open>
  Claim C1: \<open>RemoveTodo\<close> of an id present in the store is to succeed and leave one
  entry less. The code finds the id among the keys and then drops the todos whose
  field \<open>Id\<close> is the id. On the store loaded from a file whose only row has the id
  7, the key 0 is present, \<open>RemoveTodo\<close> of it reports success and the store still
  has its one entry.
\<close>

theorem RemoveTodo_keeps_foreign_entry:
  "Initialize foreign_file (EnableFilePersistence init_state) = Inr loaded_state \<and>
   store loaded_state ''0'' \<noteq> None \<and>
   iteration_order [''0''] (store loaded_state) \<and>
   fst (RemoveTodo [''0''] ''0'' loaded_state) = True \<and>
   card (dom (store loaded_state)) = 1 \<and>
   card (dom (store (snd (RemoveTodo [''0''] ''0'' loaded_state)))) = 1"
proof -
  have s: "store loaded_state = [''0'' \<mapsto> \<lparr>Id' = ''7'', Title = ''buy milk'', Description = ''today'', Terminated = False\<rparr>]"
    by (simp add: loaded_state_def store_def deref_def)
  have i: "Initialize foreign_file (EnableFilePersistence init_state) = Inr loaded_state"
    by (simp add: Initialize_def EnableFilePersistence_def init_state_def foreign_file_def
        getDataFromFile_def parseTodoData_def ToBool_def ParseBool_def Itoa_0 make_map_def
        loaded_state_def Let_def)
  have r: "range_map [''0''] (store loaded_state) = [(''0'', \<lparr>Id' = ''7'', Title = ''buy milk'', Description = ''today'', Terminated = False\<rparr>)]"
    by (simp add: s range_map_def List.map_filter_simps)
  have p: "store loaded_state ''0'' \<noteq> None" by (simp add: s)
  have l: "RemoveTodo_loop ''0'' (map snd (range_map [''0''] (store loaded_state))) (Map.empty, 0) =
             ([''0'' \<mapsto> \<lparr>Id' = ''0'', Title = ''buy milk'', Description = ''today'', Terminated = False\<rparr>], 1)"
    by (simp add: r Itoa_0 Let_def)
  from RemoveTodo_present[OF p, of "[''0'']"] l
  have "store (snd (RemoveTodo [''0''] ''0'' loaded_state)) = [''0'' \<mapsto> \<lparr>Id' = ''0'', Title = ''buy milk'', Description = ''today'', Terminated = False\<rparr>]"
    and "fst (RemoveTodo [''0''] ''0'' loaded_state) = True"
    by auto
  with s i show ?thesis by (simp add: iteration_order_def)
qed

text \<open>
  The same without a file written by hand: the store of the two todos is saved with
  the key 1 visited first, the next start loads the todos under exchanged keys,
  \<open>UpdateTodo\<close> of the key 0 gives both todos the field \<open>Id\<close> 0, and \<open>RemoveTodo\<close> of the
  key 1 reports success and keeps both entries.
\<close>

lemma RemoveTodo_after_restart_keeps_both:
  "UpdateDataInFile [''1'', ''0''] (fileSystem example_env) (EnableFilePersistence two_todos_state) =
     Saved (Some restart_rows) \<and>
   Initialize (File (map Record restart_rows) False) (EnableFilePersistence init_state) =
     Inr restarted_state \<and>
   (\<exists>st1 st2. UpdateTodo ''0'' todoA restarted_state = Inr ((todoA\<lparr>Id' := ''0''\<rparr>, True), st1) \<and>
      store st1 ''1'' \<noteq> None \<and>
      RemoveTodo [''0'', ''1''] ''1'' st1 = (True, st2) \<and>
      card (dom (store st1)) = 2 \<and> card (dom (store st2)) = 2)"
proof -
  have w: "store (EnableFilePersistence two_todos_state) = store two_todos_state"
    by (simp add: EnableFilePersistence_def store_def deref_def two_todos_state_def)
  have u: "UpdateDataInFile [''1'', ''0''] (fileSystem example_env) (EnableFilePersistence two_todos_state) =
     Saved (Some restart_rows)"
    unfolding UpdateDataInFile_def w store_two
    by (simp add: EnableFilePersistence_def example_env_def range_map_def List.map_filter_simps
        restart_rows_def)
  have i: "Initialize (File (map Record restart_rows) False) (EnableFilePersistence init_state) =
     Inr restarted_state"
    by (simp add: Initialize_def EnableFilePersistence_def init_state_def restart_rows_def
        getDataFromFile_def parseTodoData_def Serialize_def FormatBool_def ToBool_def
        ParseBool_def Itoa_0 Itoa_1 make_map_def restarted_state_def Let_def todoA_def todoB_def
        fun_upd_twist)
  have s: "store restarted_state = [''0'' \<mapsto> todoB\<lparr>Id' := ''1''\<rparr>, ''1'' \<mapsto> todoA\<lparr>Id' := ''0''\<rparr>]"
    by (simp add: restarted_state_def store_def deref_def)
  then have p: "store restarted_state ''0'' \<noteq> None" by simp
  from UpdateTodo_present[OF p, of todoA] obtain st1 where
    u1: "UpdateTodo ''0'' todoA restarted_state = Inr ((todoA\<lparr>Id' := ''0''\<rparr>, True), st1)"
    and s1: "store st1 = (store restarted_state)(''0'' \<mapsto> todoA\<lparr>Id' := ''0''\<rparr>)" by blast
  from s1 s have s1': "store st1 = [''0'' \<mapsto> todoA\<lparr>Id' := ''0''\<rparr>, ''1'' \<mapsto> todoA\<lparr>Id' := ''0''\<rparr>]"
    by (simp add: fun_upd_twist)
  then have p1: "store st1 ''1'' \<noteq> None" by simp
  have r: "map snd (range_map [''0'', ''1''] (store st1)) = [todoA\<lparr>Id' := ''0''\<rparr>, todoA\<lparr>Id' := ''0''\<rparr>]"
    by (simp add: s1' range_map_def List.map_filter_simps)
  have l: "fst (RemoveTodo_loop ''1'' (map snd (range_map [''0'', ''1''] (store st1))) (Map.empty, 0)) =
             [''0'' \<mapsto> todoA\<lparr>Id' := ''0''\<rparr>, ''1'' \<mapsto> todoA\<lparr>Id' := ''1''\<rparr>]"
    unfolding r by (simp add: Itoa_0 Itoa_1 Let_def)
  from RemoveTodo_present[OF p1, of "[''0'', ''1'']"] l obtain st2 where
    r2: "RemoveTodo [''0'', ''1''] ''1'' st1 = (True, st2)"
    and s2: "store st2 = [''0'' \<mapsto> todoA\<lparr>Id' := ''0''\<rparr>, ''1'' \<mapsto> todoA\<lparr>Id' := ''1''\<rparr>]" by auto
  have c1: "card (dom (store st1)) = 2" by (simp add: s1')
  have c2: "card (dom (store st2)) = 2" by (simp add: s2)
  from u i u1 p1 r2 c1 c2 show ?thesis by blast
qed

section \<open>Reachable stores and adding\<close>

lemma contiguous_keys_empty: "contiguous_keys Map.empty"
  by (simp add: contiguous_keys_def)

lemma keyed_by_Id_empty: "keyed_by_Id Map.empty"
  by (simp add: keyed_by_Id_def)

lemma store_DeleteAllTodos: "store (DeleteAllTodos st) = Map.empty"
  by (simp add: DeleteAllTodos_def make_map_def store_def deref_def)

lemma reachable_invariant:
  "reachable st \<Longrightarrow>
     (\<exists>r. todoStore st = Some r \<and> r < nextRef st) \<and> contiguous_keys (store st) \<and> keyed_by_Id (store st)"
proof (induction rule: reachable.induct)
  case initial
  show ?case
    by (simp add: init_state_def store_def deref_def contiguous_keys_empty keyed_by_Id_empty)
next
  case (add st todo added st')
  then obtain r where r: "todoStore st = Some r" "r < nextRef st" by blast
  let ?k = "Itoa (int (card (dom (store st))))"
  from AddTodo_step[OF r(1), of todo] add.hyps(2) have
    s: "store st' = (store st)(?k \<mapsto> todo\<lparr>Id' := ?k\<rparr>)" and t: "todoStore st' = Some r"
    by auto
  from add.hyps(2) r have n: "nextRef st' = nextRef st"
    by (auto simp: AddTodo_def Let_def map_assign_def)
  from add.IH have "contiguous_keys (store st)" by simp
  from contiguous_keys_add(3)[OF this] s have "contiguous_keys (store st')" by simp
  moreover from add.IH s have "keyed_by_Id (store st')" by (auto simp: keyed_by_Id_def)
  ultimately show ?case using t n r by simp
next
  case (update st id' todo result st')
  show ?case
  proof (cases "store st id'")
    case None
    from UpdateTodo_absent[OF this, of todo] update.hyps(2) have "st' = st" by simp
    with update.IH show ?thesis by simp
  next
    case (Some x)
    then have "store st id' \<noteq> None" by simp
    from UpdateTodo_present[OF this, of todo] update.hyps(2) have
      s: "store st' = (store st)(id' \<mapsto> todo\<lparr>Id' := id'\<rparr>)"
      and t: "todoStore st' = todoStore st" "nextRef st' = nextRef st" by auto
    from Some have "insert id' (dom (store st)) = dom (store st)" by auto
    with s have "dom (store st') = dom (store st)" by simp
    with update.IH have "contiguous_keys (store st')" by (simp add: contiguous_keys_def)
    moreover from update.IH s have "keyed_by_Id (store st')" by (auto simp: keyed_by_Id_def)
    ultimately show ?thesis using t update.IH by simp
  qed
next
  case (remove st order id' ok st')
  show ?case
  proof (cases "store st id'")
    case None
    from RemoveTodo_absent[OF this, of order] remove.hyps(3) have "st' = st" by simp
    with remove.IH show ?thesis by simp
  next
    case (Some x)
    then have p: "store st id' \<noteq> None" by simp
    from remove.IH have k: "keyed_by_Id (store st)" by simp
    from RemoveTodo_general[OF remove.hyps(2) k p] remove.hyps(3)
    have "contiguous_keys (store st')" "keyed_by_Id (store st')" by simp_all
    moreover from RemoveTodo_present[OF p, of order] remove.hyps(3)
    have "todoStore st' = Some (nextRef st)" "nextRef st' = Suc (nextRef st)" by auto
    ultimately show ?thesis by simp
  qed
next
  case (deleteAll st)
  have "todoStore (DeleteAllTodos st) = Some (nextRef st)" "nextRef (DeleteAllTodos st) = Suc (nextRef st)"
    by (simp_all add: DeleteAllTodos_def make_map_def)
  then show ?case
    by (simp add: store_DeleteAllTodos contiguous_keys_empty keyed_by_Id_empty)
qed

text \<open>
  Claim C9: in every store that \<open>AddTodo\<close>, \<open>UpdateTodo\<close>, \<open>RemoveTodo\<close> and
  \<open>DeleteAllTodos\<close> reach from the empty store, the keys are exactly the decimal
  strings of 0 to n - 1, for n the number of entries, and every stored todo has its
  key in its field \<open>Id\<close>.
\<close>

theorem reachable_store_invariant:
  assumes "reachable st"
  shows "dom (store st) = (\<lambda>i. Itoa (int i)) ` {..<card (dom (store st))} \<and>
         (\<forall>k t. store st k = Some t \<longrightarrow> Id' t = k)"
  using reachable_invariant[OF assms] by (simp add: contiguous_keys_def keyed_by_Id_def)

lemma AddTodos_general:
  assumes "todoStore st = Some r" and "contiguous_keys (store st)"
  shows "\<exists>st'. AddTodos todos st =
            Inr (map (\<lambda>(i, todo). todo\<lparr>Id' := Itoa (int i)\<rparr>) (enumerate (card (dom (store st))) todos), st') \<and>
          todoStore st' = Some r \<and> contiguous_keys (store st') \<and>
          card (dom (store st')) = card (dom (store st)) + length todos \<and>
          (\<forall>k\<in>dom (store st). store st' k = store st k) \<and>
          (\<forall>i<length todos. store st' (Itoa (int (card (dom (store st)) + i))) =
              Some ((todos ! i)\<lparr>Id' := Itoa (int (card (dom (store st)) + i))\<rparr>))"
  using assms
proof (induction todos arbitrary: st)
  case Nil
  then show ?case by simp
next
  case (Cons todo rest)
  let ?n = "card (dom (store st))"
  let ?k = "Itoa (int ?n)"
  from AddTodo_step[OF Cons.prems(1), of todo] obtain st1 where
    a: "AddTodo todo st = Inr (todo\<lparr>Id' := ?k\<rparr>, st1)"
    and s: "store st1 = (store st)(?k \<mapsto> todo\<lparr>Id' := ?k\<rparr>)"
    and t: "todoStore st1 = Some r" by blast
  from contiguous_keys_add(1)[OF Cons.prems(2)]
    contiguous_keys_add(2,3)[OF Cons.prems(2), of "todo\<lparr>Id' := ?k\<rparr>"] s have
    f: "?k \<notin> dom (store st)" and c: "card (dom (store st1)) = Suc ?n"
    and ck: "contiguous_keys (store st1)" by simp_all
  from Cons.IH[OF t ck] c obtain st' where
    b: "AddTodos rest st1 = Inr (map (\<lambda>(i, todo). todo\<lparr>Id' := Itoa (int i)\<rparr>) (enumerate (Suc ?n) rest), st')"
    and t': "todoStore st' = Some r" and ck': "contiguous_keys (store st')"
    and c': "card (dom (store st')) = Suc ?n + length rest"
    and old: "\<forall>k\<in>dom (store st1). store st' k = store st1 k"
    and new: "\<forall>i<length rest. store st' (Itoa (int (Suc ?n + i))) =
              Some ((rest ! i)\<lparr>Id' := Itoa (int (Suc ?n + i))\<rparr>)"
    by auto
  from a b have "AddTodos (todo # rest) st =
      Inr (map (\<lambda>(i, todo). todo\<lparr>Id' := Itoa (int i)\<rparr>) (enumerate ?n (todo # rest)), st')"
    by simp
  moreover from c' have "card (dom (store st')) = ?n + length (todo # rest)" by simp
  moreover have "\<forall>k\<in>dom (store st). store st' k = store st k"
  proof
    fix k assume k: "k \<in> dom (store st)"
    with f have "k \<noteq> ?k" by auto
    with s k old show "store st' k = store st k" by auto
  qed
  moreover have "\<forall>i<length (todo # rest). store st' (Itoa (int (?n + i))) =
              Some (((todo # rest) ! i)\<lparr>Id' := Itoa (int (?n + i))\<rparr>)"
  proof (intro allI impI)
    fix i assume i: "i < length (todo # rest)"
    show "store st' (Itoa (int (?n + i))) = Some (((todo # rest) ! i)\<lparr>Id' := Itoa (int (?n + i))\<rparr>)"
    proof (cases i)
      case 0
      from s old have "store st' ?k = Some (todo\<lparr>Id' := ?k\<rparr>)" by auto
      with 0 show ?thesis by simp
    next
      case (Suc j)
      with i new show ?thesis by simp
    qed
  qed
  ultimately show ?case using t' ck' by blast
qed

text \<open>
  On a store that is a map with no entries, the initial store and the store after
  \<open>DeleteAllTodos\<close> among them, adding N todos one after the other returns them with
  the ids 0 to N - 1 in this order, whatever ids they came with, and stores each
  under its id.
\<close>

lemma AddTodos_on_empty_map:
  assumes t: "todoStore st = Some r" and e: "store st = Map.empty"
  shows "\<exists>st'. AddTodos todos st =
       Inr (map (\<lambda>(i, todo). todo\<lparr>Id' := Itoa (int i)\<rparr>) (enumerate 0 todos), st') \<and>
     (\<forall>i<length todos. store st' (Itoa (int i)) = Some ((todos ! i)\<lparr>Id' := Itoa (int i)\<rparr>))"
proof -
  from e have c: "contiguous_keys (store st)" by (simp add: contiguous_keys_empty)
  from AddTodos_general[OF t c, of todos] show ?thesis by (auto simp: e)
qed

lemma AddTodos_after_DeleteAllTodos:
  "\<exists>st'. AddTodos todos (DeleteAllTodos st) =
       Inr (map (\<lambda>(i, todo). todo\<lparr>Id' := Itoa (int i)\<rparr>) (enumerate 0 todos), st') \<and>
     (\<forall>i<length todos. store st' (Itoa (int i)) = Some ((todos ! i)\<lparr>Id' := Itoa (int i)\<rparr>))"
proof -
  have "todoStore (DeleteAllTodos st) = Some (nextRef st)"
    by (simp add: DeleteAllTodos_def make_map_def)
  from AddTodos_on_empty_map[OF this store_DeleteAllTodos] show ?thesis .
qed

text \<open>
  Claim C2: adding N todos to an empty store is to give them the ids 0 to N - 1.
  With file persistence on and no file \<open>data.csv\<close>, \<open>Initialize\<close> drops the error of
  \<open>getDataFromFile\<close> and leaves the nil map in \<open>todoStore\<close>. This store is empty, its
  length is 0, and \<open>AddTodo\<close> panics on the assignment to the nil map instead of
  giving the first todo the id 0.
\<close>

theorem AddTodo_panics_on_nil_store:
  "Initialize OpenError (EnableFilePersistence init_state) = Inr nil_state \<and>
   store nil_state = Map.empty \<and> len (store nil_state) = 0 \<and>
   AddTodo todoA nil_state = Inl NilMapAssignment \<and>
   AddTodos [todoA, todoB] nil_state = Inl NilMapAssignment"
proof -
  have i: "Initialize OpenError (EnableFilePersistence init_state) = Inr nil_state"
    by (simp add: Initialize_def EnableFilePersistence_def getDataFromFile_def init_state_def
        nil_state_def)
  have s: "store nil_state = Map.empty" by (simp add: store_def deref_def nil_state_def)
  have l: "len (store nil_state) = 0" by (simp add: s len_def)
  have a: "AddTodo todoA nil_state = Inl NilMapAssignment"
    by (simp add: AddTodo_def Let_def map_assign_def nil_state_def)
  then have "AddTodos [todoA, todoB] nil_state = Inl NilMapAssignment" by simp
  with i s l a show ?thesis by simp
qed

section \<open>The snapshot\<close>

lemma clone_fold_lookup:
  "foldl (\<lambda>m2 (k, v). m2(k \<mapsto> v)) acc (map (\<lambda>k. (k, the (m k))) order) x =
     (if x \<in> set order then Some (the (m x)) else acc x)"
  by (induction order arbitrary: acc) auto

lemma clone_content:
  assumes "iteration_order order m"
  shows "foldl (\<lambda>m2 (k, v). m2(k \<mapsto> v)) Map.empty (range_map order m) = m"
proof
  fix x
  from assms have s: "set order = dom m" by (simp add: iteration_order_def)
  then have "range_map order m = map (\<lambda>k. (k, the (m k))) order" by (simp add: range_map_order)
  then have "foldl (\<lambda>m2 (k, v). m2(k \<mapsto> v)) Map.empty (range_map order m) x =
     (if x \<in> set order then Some (the (m x)) else None)"
    by (simp add: clone_fold_lookup)
  with s show "foldl (\<lambda>m2 (k, v). m2(k \<mapsto> v)) Map.empty (range_map order m) x = m x"
    by (cases "m x") auto
qed

lemma TodoStore_result:
  assumes o: "iteration_order order (store st)" and w: "wf_state st"
  shows "\<exists>st1. TodoStore order st = (nextRef st, st1) \<and> heap st1 (nextRef st) = store st \<and>
           store st1 = store st \<and> todoStore st1 = todoStore st \<and>
           nextRef st1 = Suc (nextRef st) \<and> filePersistence st1 = filePersistence st \<and> wf_state st1"
proof -
  from clone_content[OF o] have c: "foldl (\<lambda>m2 (k, v). m2(k \<mapsto> v)) Map.empty (range_map order (store st)) = store st" .
  show ?thesis
    using w unfolding TodoStore_def clone_def store_def[symmetric] c
    by (auto simp: make_map_def store_def deref_def wf_state_def split: option.splits)
qed

text \<open>
  Claim C7: \<open>TodoStore()\<close> returns a copy of the store. The map it returns has
  exactly the entries of the store, and an assignment to it or a deletion from it
  changes the returned map and leaves the store as it was.
\<close>

theorem TodoStore_snapshot:
  assumes o: "iteration_order order (store st)" and w: "wf_state st"
  shows "\<exists>snapshot st1. TodoStore order st = (snapshot, st1) \<and>
           heap st1 snapshot = store st \<and> store st1 = store st \<and>
           (\<forall>k v. \<exists>st2. map_assign (Some snapshot) k v st1 = Inr st2 \<and>
                      heap st2 snapshot = (store st)(k \<mapsto> v) \<and> store st2 = store st) \<and>
           (\<forall>k. heap (map_delete (Some snapshot) k st1) snapshot = (store st)(k := None) \<and>
                 store (map_delete (Some snapshot) k st1) = store st)"
proof -
  from TodoStore_result[OF o w] obtain st1 where
    t: "TodoStore order st = (nextRef st, st1)" and h: "heap st1 (nextRef st) = store st"
    and s: "store st1 = store st" and r: "todoStore st1 = todoStore st" by blast
  from w r have ne: "todoStore st1 \<noteq> Some (nextRef st)"
    by (auto simp: wf_state_def split: option.splits)
  have a: "\<forall>k v. \<exists>st2. map_assign (Some (nextRef st)) k v st1 = Inr st2 \<and>
                      heap st2 (nextRef st) = (store st)(k \<mapsto> v) \<and> store st2 = store st"
    using h s ne by (auto simp: map_assign_def store_def deref_def split: option.splits)
  have d: "\<forall>k. heap (map_delete (Some (nextRef st)) k st1) (nextRef st) = (store st)(k := None) \<and>
                 store (map_delete (Some (nextRef st)) k st1) = store st"
    using h s ne by (auto simp: map_delete_def store_def deref_def split: option.splits)
  from t h s a d show ?thesis by blast
qed

section \<open>Loading and listing\<close>

lemma read_loop_general:
  assumes "\<forall>r\<in>set rows. 4 \<le> length r"
  shows "\<exists>m'. read_loop (map Record rows) (acc, int n) = Inr (Some m') \<and>
           dom m' = dom acc \<union> (\<lambda>i. Itoa (int i)) ` {n ..< n + length rows} \<and>
           (\<forall>i<n. m' (Itoa (int i)) = acc (Itoa (int i))) \<and>
           (\<forall>i<length rows. \<exists>t. parseTodoData (rows ! i) = Inr t \<and> m' (Itoa (int (n + i))) = Some t)"
  using assms
proof (induction rows arbitrary: acc n)
  case Nil
  then show ?case by simp
next
  case (Cons row rows)
  from Cons.prems obtain t0 where p: "parseTodoData row = Inr t0"
    by (auto simp: parseTodoData_def)
  let ?acc1 = "acc(Itoa (int n) \<mapsto> t0)"
  from Cons.prems have "\<forall>r\<in>set rows. 4 \<le> length r" by simp
  from Cons.IH[OF this, of ?acc1 "Suc n"] obtain m' where
    l: "read_loop (map Record rows) (?acc1, int (Suc n)) = Inr (Some m')"
    and d: "dom m' = dom ?acc1 \<union> (\<lambda>i. Itoa (int i)) ` {Suc n ..< Suc n + length rows}"
    and old: "\<forall>i<Suc n. m' (Itoa (int i)) = ?acc1 (Itoa (int i))"
    and new: "\<forall>i<length rows. \<exists>t. parseTodoData (rows ! i) = Inr t \<and> m' (Itoa (int (Suc n + i))) = Some t"
    by blast
  from p l have "read_loop (map Record (row # rows)) (acc, int n) = Inr (Some m')"
    by (simp add: Let_def add.commute)
  moreover have "{n ..< n + length (row # rows)} = insert n {Suc n ..< Suc n + length rows}"
    by auto
  with d have "dom m' = dom acc \<union> (\<lambda>i. Itoa (int i)) ` {n ..< n + length (row # rows)}"
    by simp
  moreover have "\<forall>i<n. m' (Itoa (int i)) = acc (Itoa (int i))"
  proof (intro allI impI)
    fix i assume i: "i < n"
    then have "Itoa (int i) \<noteq> Itoa (int n)" using Itoa_nat_inj by blast
    with old i show "m' (Itoa (int i)) = acc (Itoa (int i))" by simp
  qed
  moreover have "\<forall>i<length (row # rows). \<exists>t. parseTodoData ((row # rows) ! i) = Inr t \<and> m' (Itoa (int (n + i))) = Some t"
  proof (intro allI impI)
    fix i assume i: "i < length (row # rows)"
    show "\<exists>t. parseTodoData ((row # rows) ! i) = Inr t \<and> m' (Itoa (int (n + i))) = Some t"
    proof (cases i)
      case 0
      from old have "m' (Itoa (int n)) = Some t0" by simp
      with 0 p show ?thesis by simp
    next
      case (Suc j)
      with i new show ?thesis by simp
    qed
  qed
  ultimately show ?case by blast
qed

text \<open>
  Claim C6: with file persistence on, loading a file whose rows all read and have
  their four fields replaces the store: the keys are the decimal strings of the row
  numbers from 0, in file order, and each entry is the todo that \<open>parseTodoData\<close>
  reads from its row, whatever the store held before.
\<close>

theorem Initialize_loads_rows:
  assumes f: "filePersistence st" and r: "\<forall>r\<in>set rows. 4 \<le> length r"
  shows "\<exists>st'. Initialize (File (map Record rows) False) st = Inr st' \<and>
           dom (store st') = (\<lambda>i. Itoa (int i)) ` {..<length rows} \<and>
           (\<forall>i<length rows. \<exists>t. parseTodoData (rows ! i) = Inr t \<and>
                                 store st' (Itoa (int i)) = Some t)"
proof -
  from read_loop_general[OF r, of Map.empty 0] obtain m' where
    l: "read_loop (map Record rows) (Map.empty, 0) = Inr (Some m')"
    and d: "dom m' = (\<lambda>i. Itoa (int i)) ` {..<length rows}"
    and n: "\<forall>i<length rows. \<exists>t. parseTodoData (rows ! i) = Inr t \<and> m' (Itoa (int i)) = Some t"
    by (auto simp: lessThan_atLeast0)
  obtain r' st1 where m: "make_map m' st = (r', st1)" by (cases "make_map m' st")
  from f l m have "Initialize (File (map Record rows) False) st = Inr (st1\<lparr>todoStore := Some r'\<rparr>)"
    by (simp add: Initialize_def getDataFromFile_def)
  moreover from store_after_make_map[OF m] have "store (st1\<lparr>todoStore := Some r'\<rparr>) = m'" .
  ultimately show ?thesis using d n by simp
qed


lemma insertLess_mset: "mset (insertLess less' x xs) = add_mset x (mset xs)"
  by (induction xs) auto


lemma sort_Slice_mset_fold:
  "mset (foldl (\<lambda>prefix x. insertLess less' x prefix) acc xs) = mset acc + mset xs"
  by (induction xs arbitrary: acc) (simp_all add: insertLess_mset)

lemma sort_Slice_mset: "mset (sort_Slice less' xs) = mset xs"
  by (simp add: sort_Slice_def sort_Slice_mset_fold)


lemma sortTodos_mset: "mset (sortTodosAfterIdAscending todos) = mset todos"
  by (simp add: sortTodosAfterIdAscending_def sort_Slice_mset)


lemma TodosGet_lists_store:
  assumes e: "\<not> encodeFails e" and w: "wf_state st"
    and c: "iteration_order (cloneOrder e) (store st)"
    and r: "iteration_order (rangeOrder e) (store st)"
    and b: "body (fst (fst (TodosGet e st))) = [JsonDataResponse ts]"
  shows "mset ts = mset (map (\<lambda>k. the (store st k)) (rangeOrder e))"
proof -
  from TodoStore_result[OF c w] obtain st1 where
    t: "TodoStore (cloneOrder e) st = (nextRef st, st1)" and h: "heap st1 (nextRef st) = store st"
    by blast
  from r have "set (rangeOrder e) \<subseteq> dom (store st)" by (simp add: iteration_order_def)
  from range_map_values[OF this] have v: "map snd (range_map (rangeOrder e) (store st)) = map (\<lambda>k. the (store st k)) (rangeOrder e)" .
  from e t h b have "ts = sortTodosAfterIdAscending (map snd (range_map (rangeOrder e) (store st)))"
    by (simp add: TodosGet_def Let_def Encode_def WriteHeader_def new_response_def)
  with v show ?thesis by (simp add: sortTodos_mset)
qed

section \<open>Updating over HTTP\<close>



section \<open>Well-formed states\<close>

lemma reachable_wf_state: "reachable st \<Longrightarrow> wf_state st"
  using reachable_invariant[of st] by (auto simp: wf_state_def)

lemma Initialize_wf_state:
  assumes "wf_state st" and "Initialize file st = Inr st'"
  shows "wf_state st'"
  using assms
  by (auto simp: Initialize_def getDataFromFile_def make_map_def wf_state_def Let_def
      split: if_splits csv_file.splits sum.splits option.splits prod.splits)

section \<open>The claims on the example stores\<close>

theorem absent_id_fails_unchanged_witness:
  "store two_todos_state ''5'' = None \<and>
   UpdateTodo ''5'' todoA two_todos_state = Inr ((Todo_zero, False), two_todos_state) \<and>
   RemoveTodo [''1'', ''0''] ''5'' two_todos_state = (False, two_todos_state)"
proof -
  have a: "store two_todos_state ''5'' = None" by (simp add: store_two)
  from absent_id_fails_unchanged[OF a, of todoA "[''1'', ''0'']"] a show ?thesis by simp
qed

theorem UpdateTodo_replaces_witness:
  "store two_todos_state ''1'' \<noteq> None \<and>
   (\<exists>st'. UpdateTodo ''1'' todoA two_todos_state = Inr ((todoA\<lparr>Id' := ''1''\<rparr>, True), st') \<and>
          store st' = (store two_todos_state)(''1'' \<mapsto> todoA\<lparr>Id' := ''1''\<rparr>))"
proof -
  have p: "store two_todos_state ''1'' \<noteq> None" by (simp add: store_two)
  from UpdateTodo_replaces[of "''1''" todoA two_todos_state] obtain updated ok st' where
    u: "UpdateTodo ''1'' todoA two_todos_state = Inr ((updated, ok), st')"
    and o: "(ok = False) = (store two_todos_state ''1'' = None)"
    and r: "store two_todos_state ''1'' \<noteq> None \<longrightarrow>
        updated = todoA\<lparr>Id' := ''1''\<rparr> \<and> store st' = (store two_todos_state)(''1'' \<mapsto> todoA\<lparr>Id' := ''1''\<rparr>)"
    by (elim exE conjE)
  from o p have "ok = True" by simp
  with u r p show ?thesis by simp
qed

lemma AddTodo_first: "AddTodo todoA init_state = Inr (todoA\<lparr>Id' := ''0''\<rparr>, one_todo_state)"
  by (simp add: AddTodo_def Let_def len_def store_def deref_def init_state_def map_assign_def
      Itoa_0 one_todo_state_def)

lemma reachable_one: "reachable one_todo_state"
  by (rule reachable.add[OF reachable.initial AddTodo_first])

theorem reachable_store_invariant_witness:
  "reachable one_todo_state \<and>
   dom (store one_todo_state) = (\<lambda>i. Itoa (int i)) ` {..<card (dom (store one_todo_state))} \<and>
   store one_todo_state ''0'' = Some (todoA\<lparr>Id' := ''0''\<rparr>) \<and>
   Id' (todoA\<lparr>Id' := ''0''\<rparr>) = ''0''"
proof -
  have s: "store one_todo_state ''0'' = Some (todoA\<lparr>Id' := ''0''\<rparr>)"
    by (simp add: one_todo_state_def store_def deref_def)
  from reachable_store_invariant[OF reachable_one] have
    d: "dom (store one_todo_state) = (\<lambda>i. Itoa (int i)) ` {..<card (dom (store one_todo_state))}"
    and k: "\<forall>k t. store one_todo_state k = Some t \<longrightarrow> Id' t = k" by simp_all
  from k s have "Id' (todoA\<lparr>Id' := ''0''\<rparr>) = ''0''" by blast
  with d s reachable_one show ?thesis by simp
qed

lemma AddTodos_two_todos:
  "\<exists>st'. AddTodos [todoA, todoB] init_state =
            Inr ([todoA\<lparr>Id' := ''0''\<rparr>, todoB\<lparr>Id' := ''1''\<rparr>], st') \<and>
          store st' ''0'' = Some (todoA\<lparr>Id' := ''0''\<rparr>) \<and>
          store st' ''1'' = Some (todoB\<lparr>Id' := ''1''\<rparr>)"
proof -
  have t: "todoStore init_state = Some 0" by (simp add: init_state_def)
  have e: "store init_state = Map.empty" by (simp add: init_state_def store_def deref_def)
  from AddTodos_on_empty_map[OF t e, of "[todoA, todoB]"] obtain st' where
    a: "AddTodos [todoA, todoB] init_state =
       Inr (map (\<lambda>(i, todo). todo\<lparr>Id' := Itoa (int i)\<rparr>) (enumerate 0 [todoA, todoB]), st')"
    and s: "\<forall>i<length [todoA, todoB]. store st' (Itoa (int i)) = Some (([todoA, todoB] ! i)\<lparr>Id' := Itoa (int i)\<rparr>)"
    by blast
  have z: "(0::nat) < length [todoA, todoB]" and o: "(1::nat) < length [todoA, todoB]" by simp_all
  from s z have "store st' (Itoa (int 0)) = Some (([todoA, todoB] ! 0)\<lparr>Id' := Itoa (int 0)\<rparr>)" by blast
  moreover from s o have "store st' (Itoa (int 1)) = Some (([todoA, todoB] ! 1)\<lparr>Id' := Itoa (int 1)\<rparr>)" by blast
  ultimately show ?thesis using a by (simp add: Itoa_0 Itoa_1)
qed

theorem TodoStore_snapshot_witness:
  "iteration_order [''1'', ''0''] (store two_todos_state) \<and> wf_state two_todos_state \<and>
   (\<exists>snapshot st1. TodoStore [''1'', ''0''] two_todos_state = (snapshot, st1) \<and>
      heap st1 snapshot = store two_todos_state \<and> store st1 = store two_todos_state \<and>
      (\<exists>st2. map_assign (Some snapshot) ''0'' todoB st1 = Inr st2 \<and>
              heap st2 snapshot ''0'' = Some todoB \<and>
              store st2 ''0'' = Some (todoA\<lparr>Id' := ''0''\<rparr>)) \<and>
      heap (map_delete (Some snapshot) ''0'' st1) snapshot ''0'' = None \<and>
      store (map_delete (Some snapshot) ''0'' st1) ''0'' = Some (todoA\<lparr>Id' := ''0''\<rparr>))"
proof -
  from TodoStore_snapshot[OF order_two wf_two] obtain snapshot st1 where
    t: "TodoStore [''1'', ''0''] two_todos_state = (snapshot, st1)"
    and h: "heap st1 snapshot = store two_todos_state" "store st1 = store two_todos_state"
    and a: "\<forall>k v. \<exists>st2. map_assign (Some snapshot) k v st1 = Inr st2 \<and>
                      heap st2 snapshot = (store two_todos_state)(k \<mapsto> v) \<and> store st2 = store two_todos_state"
    and d: "\<forall>k. heap (map_delete (Some snapshot) k st1) snapshot = (store two_todos_state)(k := None) \<and>
                 store (map_delete (Some snapshot) k st1) = store two_todos_state"
    by blast
  from a obtain st2 where "map_assign (Some snapshot) ''0'' todoB st1 = Inr st2"
    "heap st2 snapshot = (store two_todos_state)(''0'' \<mapsto> todoB)" "store st2 = store two_todos_state"
    by blast
  then have "\<exists>st2. map_assign (Some snapshot) ''0'' todoB st1 = Inr st2 \<and>
              heap st2 snapshot ''0'' = Some todoB \<and>
              store st2 ''0'' = Some (todoA\<lparr>Id' := ''0''\<rparr>)"
    by (simp add: store_two)
  moreover from d have "heap (map_delete (Some snapshot) ''0'' st1) snapshot ''0'' = None"
    "store (map_delete (Some snapshot) ''0'' st1) ''0'' = Some (todoA\<lparr>Id' := ''0''\<rparr>)"
    by (simp_all add: store_two)
  ultimately show ?thesis using t h order_two wf_two by blast
qed

theorem Initialize_loads_rows_witness:
  "filePersistence (EnableFilePersistence init_state) \<and>
   4 \<le> length [''7'', ''buy milk'', ''today'', ''false''] \<and>
   (\<exists>st'. Initialize (File (map Record [[''7'', ''buy milk'', ''today'', ''false'']]) False)
             (EnableFilePersistence init_state) = Inr st' \<and>
          dom (store st') = {''0''} \<and>
          store st' ''0'' = Some \<lparr>Id' = ''7'', Title = ''buy milk'', Description = ''today'',
                                   Terminated = False\<rparr>)"
proof -
  let ?rows = "[[''7'', ''buy milk'', ''today'', ''false'']]"
  have f: "filePersistence (EnableFilePersistence init_state)"
    by (simp add: EnableFilePersistence_def)
  have r: "\<forall>r\<in>set ?rows. 4 \<le> length r" by simp
  from Initialize_loads_rows[OF f r] obtain st' where
    i: "Initialize (File (map Record ?rows) False) (EnableFilePersistence init_state) = Inr st'"
    and d: "dom (store st') = (\<lambda>i. Itoa (int i)) ` {..<length ?rows}"
    and e: "\<forall>i<length ?rows. \<exists>t. parseTodoData (?rows ! i) = Inr t \<and> store st' (Itoa (int i)) = Some t"
    by blast
  have "{..<length ?rows} = {0}" by auto
  with d have d': "dom (store st') = {''0''}" by (simp add: Itoa_0)
  have "(0::nat) < length ?rows" by simp
  with e have "\<exists>t. parseTodoData (?rows ! 0) = Inr t \<and> store st' (Itoa (int 0)) = Some t" by blast
  then have "store st' ''0'' = Some \<lparr>Id' = ''7'', Title = ''buy milk'', Description = ''today'', Terminated = False\<rparr>"
    by (auto simp: Itoa_0 parseTodoData_def ToBool_def ParseBool_def)
  with i d' f show ?thesis by simp
qed







end
